theory Spec2Isabelle
  imports Main "HOL-Library.Char_ord" "HOL-Library.List_Lexorder"
begin

section \<open>The shortcut registry of the shortcuts-plugin template\<close>

text \<open>
  This theory embeds \<^verbatim>\<open>templates/template_shortcuts_plugin.py\<close> (class
  \<^verbatim>\<open>ShortcutsPlugin\<close>): the registry held in \<^verbatim>\<open>self.shortcuts\<close>, its
  loading and saving, the query path, the category listing, the execution of a
  shortcut, the copy of its path and its deletion. The methods
  \<^verbatim>\<open>context_menu\<close> and \<^verbatim>\<open>open_editor\<close> do not touch the registry and are
  left out.

  Scope of the model.
  \<^item> A shortcut is a Python dict read from JSON. The code reads eight keys of it;
    each is modelled as an optional field, \<open>None\<close> meaning that the key is absent.
    A present field carries a value of the type the data model gives it (a string,
    for \<^verbatim>\<open>priority\<close> an integer); values of other JSON types are outside the model.
  \<^item> Strings are byte strings (UTF-8). \<^verbatim>\<open>str.lower\<close> and \<^verbatim>\<open>str.strip\<close> are
    parameters (\<open>py\<close>): nothing is assumed of them but what a theorem states.
  \<^item> \<^verbatim>\<open>self.logger.error\<close> belongs to the host's base class, which is not part
    of the repository; it is modelled as an effect that records the message and
    returns (\<open>logger_error\<close>).
  \<^item> The operating system, the environment variables and the outcome of writing the
    file are parameters (\<open>env\<close>): the theorems hold for every behaviour of them.
\<close>

subsection \<open>Data model\<close>

record shortcut =
  keyword :: "string option"
  name :: "string option"
  type :: "string option"
  path :: "string option"
  category :: "string option"
  priority :: "int option"
  icon :: "string option"
  openWith :: "string option"

text \<open>The exceptions the code can meet. All of them derive from \<^verbatim>\<open>Exception\<close>.\<close>

datatype py_error =
  KeyError string
  | AttributeError string
  | JSONDecodeError
  | OSError string
  | ImportError string
  | OtherError string

text \<open>\<^verbatim>\<open>d.get(key, default)\<close> and \<^verbatim>\<open>d[key]\<close> on a dict field.\<close>

definition get :: "'a option \<Rightarrow> 'a \<Rightarrow> 'a" where
  "get v d = (case v of None \<Rightarrow> d | Some x \<Rightarrow> x)"

definition getitem :: "'a option \<Rightarrow> string \<Rightarrow> py_error + 'a" where
  "getitem v k = (case v of None \<Rightarrow> Inl (KeyError k) | Some x \<Rightarrow> Inr x)"

subsection \<open>Lookup by keyword\<close>

text \<open>
  Lines 112 and 190:
  \<^verbatim>\<open>next((s for s in self.shortcuts if s['keyword'] == keyword), None)\<close>.
  The generator is consumed from the front; the subscript raises \<^verbatim>\<open>KeyError\<close>
  at the first record without a \<^verbatim>\<open>keyword\<close> key that is reached before a match.
\<close>

fun resolve :: "shortcut list \<Rightarrow> string \<Rightarrow> py_error + shortcut option" where
  "resolve [] k = Inr None"
| "resolve (s # ss) k =
     (case getitem (keyword s) ''keyword'' of
        Inl e \<Rightarrow> Inl e
      | Inr k' \<Rightarrow> if k' = k then Inr (Some s) else resolve ss k)"

text \<open>
  The data model makes \<^verbatim>\<open>keyword\<close> a required field: a registry is keyed when
  every record has one.
\<close>

definition keyed :: "shortcut list \<Rightarrow> bool" where
  "keyed reg = list_all (\<lambda>s. keyword s \<noteq> None) reg"

subsection \<open>Strings\<close>

text \<open>
  \<^verbatim>\<open>str.lower\<close> and \<^verbatim>\<open>str.strip\<close> are built into Python and work on
  every Unicode text (the case mapping and the whitespace of Unicode). They are
  parameters of the query: the theorems hold for every pair of functions in
  their place.
\<close>

record str_methods =
  lower :: "string \<Rightarrow> string"
  strip :: "string \<Rightarrow> string"

text \<open>
  What the two methods do on a text of ASCII characters, for the examples, which
  are such texts: \<^verbatim>\<open>lower\<close> moves the letters A to Z to a to z and leaves every
  other character; \<^verbatim>\<open>strip\<close> removes the leading and the trailing characters
  among 0x09 to 0x0D, 0x1C to 0x1F and the space.
\<close>

definition ascii_lower_char :: "char \<Rightarrow> char" where
  "ascii_lower_char c =
     (if CHR ''A'' \<le> c \<and> c \<le> CHR ''Z'' then char_of (of_char c + (32::nat)) else c)"

definition ascii_isspace :: "char \<Rightarrow> bool" where
  "ascii_isspace c = (c \<in> set [CHR 0x09, CHR 0x0A, CHR 0x0B, CHR 0x0C, CHR 0x0D,
                                CHR 0x1C, CHR 0x1D, CHR 0x1E, CHR 0x1F, CHR 0x20])"

definition ascii_str :: str_methods where
  "ascii_str =
     \<lparr>lower = map ascii_lower_char,
      strip = (\<lambda>s. rev (dropWhile ascii_isspace (rev (dropWhile ascii_isspace s))))\<rparr>"

text \<open>The decimal numeral of a length, as an f-string renders it.\<close>

fun str_nat :: "nat \<Rightarrow> string" where
  "str_nat n =
     (if n < 10 then [char_of (48 + n)] else str_nat (n div 10) @ [char_of (48 + n mod 10)])"

declare str_nat.simps [simp del]

subsection \<open>Display results\<close>

text \<open>
  A result handed to the host is a dict with the keys \<^verbatim>\<open>Title\<close>,
  \<^verbatim>\<open>SubTitle\<close>, \<^verbatim>\<open>IcoPath\<close> and, for a shortcut, \<^verbatim>\<open>JsonRPCAction\<close>
  (method and parameters) and \<^verbatim>\<open>ContextData\<close>.
\<close>

record result =
  Title :: string
  SubTitle :: string
  IcoPath :: string
  JsonRPCAction :: "(string \<times> string list) option"
  ContextData :: "string option"

text \<open>
  \<^verbatim>\<open>format_shortcut_result\<close>, lines 70 to 81. The three \<^verbatim>\<open>get\<close> calls have
  defaults; \<^verbatim>\<open>shortcut['keyword']\<close> raises when the key is absent.
\<close>

definition format_shortcut_result :: "shortcut \<Rightarrow> py_error + result" where
  "format_shortcut_result s =
     (case getitem (keyword s) ''keyword'' of
        Inl e \<Rightarrow> Inl e
      | Inr k \<Rightarrow> Inr \<lparr>Title = get (name s) ''Unnamed'',
                       SubTitle = get (path s) '''',
                       IcoPath = get (icon s) ''Images/icon.png'',
                       JsonRPCAction = Some (''execute_shortcut'', [k]),
                       ContextData = Some k\<rparr>)"

subsection \<open>Listing by category\<close>

text \<open>
  \<^verbatim>\<open>show_shortcut_list\<close>, lines 83 to 108. The dict \<^verbatim>\<open>categories\<close> keeps its
  keys in insertion order; it is an association list with distinct keys. One
  round of the first loop (lines 89 to 93):
\<close>

definition category_of :: "shortcut \<Rightarrow> string" where
  "category_of s = get (category s) ''Uncategorized''"

definition add_to_category ::
  "(string \<times> shortcut list) list \<Rightarrow> shortcut \<Rightarrow> (string \<times> shortcut list) list" where
  "add_to_category categories s =
     (let c = category_of s;
          categories' = (if c \<notin> set (map fst categories) then categories @ [(c, [])]
                         else categories)
      in map (\<lambda>(k, v). if k = c then (k, v @ [s]) else (k, v)) categories')"

definition group_by_category :: "shortcut list \<Rightarrow> (string \<times> shortcut list) list" where
  "group_by_category reg = foldl add_to_category [] reg"

text \<open>
  \<^verbatim>\<open>sorted(xs, key=f, reverse=True)\<close>: the list is reversed, sorted stably in
  ascending order of the key, and reversed again. The key of line 105 is
  \<^verbatim>\<open>x.get('priority', 0)\<close>.
\<close>

definition sorted_reverse :: "('a \<Rightarrow> int) \<Rightarrow> 'a list \<Rightarrow> 'a list" where
  "sorted_reverse f xs = rev (sort_key f (rev xs))"

definition priority_of :: "shortcut \<Rightarrow> int" where
  "priority_of x = get (priority x) 0"

text \<open>The header of a category, lines 98 to 102; the title starts with U+1F4C1 in UTF-8.\<close>

definition header :: "string \<Rightarrow> shortcut list \<Rightarrow> result" where
  "header c shortcuts =
     \<lparr>Title = [CHR 0xF0, CHR 0x9F, CHR 0x93, CHR 0x81] @ '' '' @ c,
      SubTitle = str_nat (length shortcuts) @ '' shortcuts'',
      IcoPath = ''Images/folder.png'',
      JsonRPCAction = None,
      ContextData = None\<rparr>"

text \<open>The inner loop, lines 105 and 106, appending to \<^verbatim>\<open>results\<close>.\<close>

fun append_formatted :: "result list \<Rightarrow> shortcut list \<Rightarrow> py_error + result list" where
  "append_formatted results [] = Inr results"
| "append_formatted results (s # ss) =
     (case format_shortcut_result s of
        Inl e \<Rightarrow> Inl e
      | Inr r \<Rightarrow> append_formatted (results @ [r]) ss)"

text \<open>
  The outer loop, lines 96 to 106, over \<^verbatim>\<open>sorted(categories.items())\<close>. The items
  are pairs whose first components are distinct, so the order of the pairs is the
  order of the category names.
\<close>

fun append_categories ::
  "result list \<Rightarrow> (string \<times> shortcut list) list \<Rightarrow> py_error + result list" where
  "append_categories results [] = Inr results"
| "append_categories results ((c, shortcuts) # rest) =
     (case append_formatted (results @ [header c shortcuts])
             (sorted_reverse priority_of shortcuts) of
        Inl e \<Rightarrow> Inl e
      | Inr results' \<Rightarrow> append_categories results' rest)"

definition show_shortcut_list :: "shortcut list \<Rightarrow> py_error + result list" where
  "show_shortcut_list reg = append_categories [] (sort_key fst (group_by_category reg))"

subsection \<open>Query\<close>

text \<open>
  \<^verbatim>\<open>query\<close>, lines 47 to 68, with the string methods \<open>py\<close>. The loop of lines
  57 to 59:
\<close>

fun search ::
  "str_methods \<Rightarrow> string \<Rightarrow> result list \<Rightarrow> shortcut list \<Rightarrow> py_error + result list" where
  "search py q results [] = Inr results"
| "search py q results (s # ss) =
     (if lower py q = lower py (get (keyword s) '''') then
        (case format_shortcut_result s of
           Inl e \<Rightarrow> Inl e
         | Inr r \<Rightarrow> search py q (results @ [r]) ss)
      else search py q results ss)"

definition help_entry :: result where
  "help_entry = \<lparr>Title = ''Type a shortcut keyword'',
                  SubTitle = ''Or type 'list' to see all shortcuts'',
                  IcoPath = ''Images/icon.png'',
                  JsonRPCAction = None,
                  ContextData = None\<rparr>"

definition query :: "str_methods \<Rightarrow> shortcut list \<Rightarrow> string \<Rightarrow> py_error + result list" where
  "query py reg q =
     (if lower py q = ''list'' then show_shortcut_list reg
      else if strip py q \<noteq> [] then search py q [] reg
      else Inr [help_entry])"

text \<open>
  The groups in the order of their emission, each in the order of its members'
  emission: what the two loops of \<^verbatim>\<open>show_shortcut_list\<close> walk through.
\<close>

definition listByCategory :: "shortcut list \<Rightarrow> (string \<times> shortcut list) list" where
  "listByCategory reg =
     map (\<lambda>(c, g). (c, sorted_reverse priority_of g)) (sort_key fst (group_by_category reg))"

text \<open>The result that \<^verbatim>\<open>format_shortcut_result\<close> returns for a record with a keyword.\<close>

definition entry :: "shortcut \<Rightarrow> result" where
  "entry s = \<lparr>Title = get (name s) ''Unnamed'',
               SubTitle = get (path s) '''',
               IcoPath = get (icon s) ''Images/icon.png'',
               JsonRPCAction = Some (''execute_shortcut'', [get (keyword s) '''']),
               ContextData = Some (get (keyword s) '''')\<rparr>"

text \<open>
  The invariant of the first loop of \<^verbatim>\<open>show_shortcut_list\<close>, after the records
  \<open>seen\<close>: the keys are distinct, they are the categories seen, and each key holds
  the records of its category in the order seen.
\<close>

definition grouped_inv :: "(string \<times> shortcut list) list \<Rightarrow> shortcut list \<Rightarrow> bool" where
  "grouped_inv cats seen \<longleftrightarrow>
     distinct (map fst cats) \<and> fst ` set cats = category_of ` set seen
     \<and> (\<forall>(c, g)\<in>set cats. g = filter (\<lambda>s. category_of s = c) seen)"

subsection \<open>The file, the operating system and the plugin's state\<close>

text \<open>
  What \<^verbatim>\<open>json.load\<close> returns for the file: a dict, of which the code reads the
  key \<^verbatim>\<open>shortcuts\<close> only (the names of its other keys are kept), or a value that
  is not a dict.
\<close>

datatype document =
  Non_dict
  | Dict (shortcuts_field: "shortcut list option") (other_fields: "string list")

text \<open>
  The file at \<^verbatim>\<open>self.shortcuts_file\<close>: it does not exist, or opening it raises,
  or its text does not parse, or it parses.
\<close>

datatype json_file = Absent | Unreadable py_error | Malformed py_error | Parsed document

datatype os_call = Startfile string | Popen_cmd string | Popen_args "string list"

text \<open>
  The effects of the plugin on its surroundings, in the order of their occurrence:
  an expansion of environment variables, a call of \<^verbatim>\<open>os.startfile\<close> or
  \<^verbatim>\<open>subprocess.Popen\<close>, the opening of the file for writing, a text put on
  the clipboard, a logged error.
\<close>

datatype effect =
  Expandvars string
  | Os_call os_call
  | Open_write
  | Clipboard_copy string
  | Logged string py_error

record plugin =
  shortcuts :: "shortcut list"
  shortcuts_file :: json_file
  effects :: "effect list"

text \<open>
  The surroundings answer: the expansion of a path, the outcome of a call to the
  operating system (\<open>None\<close> when it returns), the outcome of writing the file,
  and the outcome of importing \<^verbatim>\<open>pyperclip\<close> and copying a text with it.
\<close>

datatype write_outcome = Written | Open_failed py_error | Dump_failed py_error

record env =
  expandvars :: "string \<Rightarrow> py_error + string"
  os_call_result :: "os_call \<Rightarrow> py_error option"
  write_result :: write_outcome
  clipboard_result :: "string \<Rightarrow> py_error option"

text \<open>
  Modelled from the spec: \<^verbatim>\<open>self.logger.error\<close>, a method of the host's base
  class \<^verbatim>\<open>FlowLauncher\<close>, which is not in the repository. The spec has every
  failure caught, logged and carried on from: the call records its message and
  the exception, and returns.
\<close>

definition logger_error :: "string \<Rightarrow> py_error \<Rightarrow> plugin \<Rightarrow> plugin" where
  "logger_error msg e st = st\<lparr>effects := effects st @ [Logged msg e]\<rparr>"

subsection \<open>Loading and saving\<close>

text \<open>
  The body of the \<^verbatim>\<open>try\<close> of \<^verbatim>\<open>load_shortcuts\<close>, lines 30 to 34:
  \<^verbatim>\<open>os.path.exists\<close>, \<^verbatim>\<open>open\<close>, \<^verbatim>\<open>json.load\<close> and
  \<^verbatim>\<open>data.get('shortcuts', [])\<close>, which raises \<^verbatim>\<open>AttributeError\<close> when the
  data is not a dict.
\<close>

fun read_shortcuts :: "json_file \<Rightarrow> py_error + shortcut list" where
  "read_shortcuts Absent = Inr []"
| "read_shortcuts (Unreadable e) = Inl e"
| "read_shortcuts (Malformed e) = Inl e"
| "read_shortcuts (Parsed Non_dict) = Inl (AttributeError ''get'')"
| "read_shortcuts (Parsed (Dict sf others)) = Inr (get sf [])"

text \<open>\<^verbatim>\<open>load_shortcuts\<close>, lines 27 to 37, with its handler.\<close>

definition load_shortcuts :: "plugin \<Rightarrow> py_error + (shortcut list \<times> plugin)" where
  "load_shortcuts st =
     (case read_shortcuts (shortcuts_file st) of
        Inr r \<Rightarrow> Inr (r, st)
      | Inl e \<Rightarrow> Inr ([], logger_error ''Error loading shortcuts'' e st))"

text \<open>Line 23 of \<^verbatim>\<open>__init__\<close>: \<^verbatim>\<open>self.shortcuts = self.load_shortcuts()\<close>.\<close>

definition init :: "plugin \<Rightarrow> py_error + plugin" where
  "init st =
     (case load_shortcuts st of
        Inl e \<Rightarrow> Inl e
      | Inr (r, st') \<Rightarrow> Inr (st'\<lparr>shortcuts := r\<rparr>))"

text \<open>
  \<^verbatim>\<open>save_shortcuts\<close>, lines 39 to 45. Opening the file for writing empties it;
  \<^verbatim>\<open>json.dump\<close> then writes the dict with the single key \<^verbatim>\<open>shortcuts\<close>. When
  the dump fails on the way, the text left behind does not parse.
\<close>

definition save_shortcuts :: "env \<Rightarrow> plugin \<Rightarrow> py_error + plugin" where
  "save_shortcuts env st =
     (let st1 = st\<lparr>effects := effects st @ [Open_write]\<rparr> in
      case write_result env of
        Written \<Rightarrow> Inr (st1\<lparr>shortcuts_file := Parsed (Dict (Some (shortcuts st)) [])\<rparr>)
      | Open_failed e \<Rightarrow> Inr (logger_error ''Error saving shortcuts'' e st1)
      | Dump_failed e \<Rightarrow>
          Inr (logger_error ''Error saving shortcuts'' e
                 (st1\<lparr>shortcuts_file := Malformed JSONDecodeError\<rparr>)))"

definition load_then_save :: "env \<Rightarrow> plugin \<Rightarrow> py_error + plugin" where
  "load_then_save env st =
     (case init st of Inl e \<Rightarrow> Inl e | Inr st1 \<Rightarrow> save_shortcuts env st1)"

subsection \<open>Executing a shortcut\<close>

definition os_do :: "env \<Rightarrow> os_call \<Rightarrow> plugin \<Rightarrow> py_error option \<times> plugin" where
  "os_do env c st = (os_call_result env c, st\<lparr>effects := effects st @ [Os_call c]\<rparr>)"

text \<open>
  The body of the \<^verbatim>\<open>try\<close> of \<^verbatim>\<open>execute_shortcut\<close>, lines 118 to 143. The
  command of line 131 is \<^verbatim>\<open>explorer "{path}"\<close>, the double quote being the
  character 0x22. \<^verbatim>\<open>if open_with:\<close> holds for a string that is present and not
  empty. A type other than the four makes no call.
\<close>

definition try_execute :: "env \<Rightarrow> shortcut \<Rightarrow> plugin \<Rightarrow> py_error option \<times> plugin" where
  "try_execute env shortcut st =
     (let st1 = st\<lparr>effects := effects st @ [Expandvars (get (path shortcut) '''')]\<rparr> in
      case expandvars env (get (path shortcut) '''') of
        Inl e \<Rightarrow> (Some e, st1)
      | Inr p \<Rightarrow>
          (let shortcut_type = get (type shortcut) ''file'' in
           if shortcut_type = ''url'' then os_do env (Startfile p) st1
           else if shortcut_type = ''folder'' then
             os_do env (Popen_cmd (''explorer '' @ [CHR 0x22] @ p @ [CHR 0x22])) st1
           else if shortcut_type = ''file'' then
             (case openWith shortcut of
                None \<Rightarrow> os_do env (Startfile p) st1
              | Some open_with \<Rightarrow>
                  if open_with \<noteq> [] then os_do env (Popen_args [open_with, p]) st1
                  else os_do env (Startfile p) st1)
           else if shortcut_type = ''app'' then os_do env (Popen_cmd p) st1
           else (None, st1)))"

text \<open>
  \<^verbatim>\<open>execute_shortcut\<close>, lines 110 to 146. The lookup of line 112 stands before
  the \<^verbatim>\<open>try\<close>: its \<^verbatim>\<open>KeyError\<close> leaves the method. A record that was found
  has a keyword, so it is a dict that is not empty and \<^verbatim>\<open>not shortcut\<close> is false.
\<close>

definition execute_shortcut :: "env \<Rightarrow> plugin \<Rightarrow> string \<Rightarrow> py_error + (bool \<times> plugin)" where
  "execute_shortcut env st k =
     (case resolve (shortcuts st) k of
        Inl e \<Rightarrow> Inl e
      | Inr None \<Rightarrow> Inr (False, st)
      | Inr (Some shortcut) \<Rightarrow>
          (case try_execute env shortcut st of
             (None, st') \<Rightarrow> Inr (True, st')
           | (Some e, st') \<Rightarrow> Inr (False, logger_error ''Error executing shortcut'' e st')))"

text \<open>The calls to the operating system among some effects.\<close>

fun os_calls :: "effect list \<Rightarrow> os_call list" where
  "os_calls [] = []"
| "os_calls (Os_call c # es) = c # os_calls es"
| "os_calls (e # es) = os_calls es"

text \<open>The calls that one run of \<^verbatim>\<open>execute_shortcut\<close> adds.\<close>

definition launched :: "env \<Rightarrow> plugin \<Rightarrow> string \<Rightarrow> os_call list" where
  "launched env st k =
     (case execute_shortcut env st k of
        Inl e \<Rightarrow> []
      | Inr (ok, st') \<Rightarrow> os_calls (drop (length (effects st)) (effects st')))"

subsection \<open>Copying a path\<close>

text \<open>
  \<^verbatim>\<open>copy_path\<close>, lines 188 to 193: the lookup, and for a record found the
  import of \<^verbatim>\<open>pyperclip\<close> and the copy of the path. The method has no
  handler.
\<close>

definition copy_path :: "env \<Rightarrow> plugin \<Rightarrow> string \<Rightarrow> py_error + plugin" where
  "copy_path env st k =
     (case resolve (shortcuts st) k of
        Inl e \<Rightarrow> Inl e
      | Inr None \<Rightarrow> Inr st
      | Inr (Some shortcut) \<Rightarrow>
          (case clipboard_result env (get (path shortcut) '''') of
             Some e \<Rightarrow> Inl e
           | None \<Rightarrow>
               Inr (st\<lparr>effects := effects st @ [Clipboard_copy (get (path shortcut) '''')]\<rparr>)))"

subsection \<open>Deleting a shortcut\<close>

text \<open>
  Line 197: \<^verbatim>\<open>[s for s in self.shortcuts if s['keyword'] != keyword]\<close>. The
  comprehension reads the keyword of every record.
\<close>

fun shortcuts_without :: "shortcut list \<Rightarrow> string \<Rightarrow> py_error + shortcut list" where
  "shortcuts_without [] k = Inr []"
| "shortcuts_without (s # ss) k =
     (case getitem (keyword s) ''keyword'' of
        Inl e \<Rightarrow> Inl e
      | Inr k' \<Rightarrow>
          (case shortcuts_without ss k of
             Inl e \<Rightarrow> Inl e
           | Inr rest \<Rightarrow> Inr (if k' \<noteq> k then s # rest else rest)))"

text \<open>\<^verbatim>\<open>delete_shortcut\<close>, lines 195 to 198.\<close>

definition delete_shortcut :: "env \<Rightarrow> plugin \<Rightarrow> string \<Rightarrow> py_error + plugin" where
  "delete_shortcut env st k =
     (case shortcuts_without (shortcuts st) k of
        Inl e \<Rightarrow> Inl e
      | Inr rest \<Rightarrow> save_shortcuts env (st\<lparr>shortcuts := rest\<rparr>))"

subsection \<open>Example records\<close>

definition blank :: shortcut where
  "blank = \<lparr>keyword = None, name = None, type = None, path = None, category = None,
     priority = None, icon = None, openWith = None\<rparr>"

definition sc_a :: shortcut where
  "sc_a = blank\<lparr>keyword := Some ''a'', category := Some ''X'', priority := Some 1\<rparr>"

definition sc_b :: shortcut where
  "sc_b = blank\<lparr>keyword := Some ''b'', category := Some ''X'', priority := Some 5\<rparr>"

definition sc_c :: shortcut where
  "sc_c = blank\<lparr>keyword := Some ''c'', category := Some ''Y'', priority := Some 0\<rparr>"

definition sc_a2 :: shortcut where
  "sc_a2 = blank\<lparr>keyword := Some ''a'', name := Some ''second''\<rparr>"

definition sc_d :: shortcut where
  "sc_d = blank\<lparr>keyword := Some ''d'', category := Some ''X'', priority := Some 1\<rparr>"

definition sc_e :: shortcut where
  "sc_e = blank\<lparr>keyword := Some ''e''\<rparr>"

definition sc_upper :: shortcut where
  "sc_upper = blank\<lparr>keyword := Some ''A'', name := Some ''third''\<rparr>"

definition sc_space1 :: shortcut where
  "sc_space1 = blank\<lparr>keyword := Some '' '', name := Some ''first''\<rparr>"

definition sc_space2 :: shortcut where
  "sc_space2 = blank\<lparr>keyword := Some '' '', name := Some ''second''\<rparr>"

definition sc_keyless :: shortcut where
  "sc_keyless = blank\<lparr>name := Some ''x'', path := Some ''C:/x''\<rparr>"

definition sc_url :: shortcut where
  "sc_url = blank\<lparr>keyword := Some ''web'', type := Some ''url'',
     path := Some ''https://example.org''\<rparr>"

definition sc_folder :: shortcut where
  "sc_folder = blank\<lparr>keyword := Some ''docs'', type := Some ''folder'', path := Some ''C:/docs''\<rparr>"

definition sc_file :: shortcut where
  "sc_file = blank\<lparr>keyword := Some ''notes'', type := Some ''file'', path := Some ''C:/n.txt'',
     openWith := Some ''''\<rparr>"

definition sc_file_with :: shortcut where
  "sc_file_with = blank\<lparr>keyword := Some ''todo'', type := Some ''file'',
     path := Some ''C:/t.txt'', openWith := Some ''notepad.exe''\<rparr>"

definition sc_app :: shortcut where
  "sc_app = blank\<lparr>keyword := Some ''calc'', type := Some ''app'', path := Some ''calc.exe''\<rparr>"

definition launchers :: "shortcut list" where
  "launchers = [sc_url, sc_folder, sc_file, sc_file_with, sc_app]"

text \<open>A plugin that has made no effect yet, and two behaviours of the surroundings.\<close>

definition fresh :: "shortcut list \<Rightarrow> json_file \<Rightarrow> plugin" where
  "fresh reg f = \<lparr>shortcuts = reg, shortcuts_file = f, effects = []\<rparr>"

definition env_ok :: env where
  "env_ok = \<lparr>expandvars = (\<lambda>p. Inr p), os_call_result = (\<lambda>c. None), write_result = Written,
             clipboard_result = (\<lambda>t. None)\<rparr>"

definition env_denied :: env where
  "env_denied = \<lparr>expandvars = (\<lambda>p. Inr p),
                  os_call_result = (\<lambda>c. Some (OSError ''denied'')),
                  write_result = Open_failed (OSError ''denied''),
                  clipboard_result = (\<lambda>t. Some (ImportError ''pyperclip''))\<rparr>"

section \<open>Theorems\<close>

subsection \<open>Formatting and the query loop\<close>

lemma format_keyed: "keyword s \<noteq> None \<Longrightarrow> format_shortcut_result s = Inr (entry s)"
  by (auto simp: format_shortcut_result_def getitem_def entry_def get_def)

lemma format_unkeyed: "keyword s = None \<Longrightarrow> format_shortcut_result s = Inl (KeyError ''keyword'')"
  by (auto simp: format_shortcut_result_def getitem_def)

text \<open>
  The loop returns when every record that matches has a keyword: on a keyed
  registry, or when the lowercased text differs from the lowercased empty text,
  the default of line 58.
\<close>

lemma matches_keyed:
  assumes "keyed reg \<or> lower py q \<noteq> lower py []"
  shows "\<forall>s\<in>set reg. lower py q = lower py (get (keyword s) '''') \<longrightarrow> keyword s \<noteq> None"
proof (intro ballI impI)
  fix s
  assume s: "s \<in> set reg" and m: "lower py q = lower py (get (keyword s) '''')"
  show "keyword s \<noteq> None"
  proof
    assume n: "keyword s = None"
    with m have "lower py q = lower py []" by (simp add: get_def)
    with assms have "keyed reg" by simp
    with s n show False by (auto simp: keyed_def list_all_iff)
  qed
qed

lemma search_acc:
  assumes "\<forall>s\<in>set reg. lower py q = lower py (get (keyword s) '''') \<longrightarrow> keyword s \<noteq> None"
  shows "search py q acc reg =
           Inr (acc @ map entry (filter (\<lambda>s. lower py (get (keyword s) '''') = lower py q) reg))"
  using assms
proof (induction reg arbitrary: acc)
  case Nil
  then show ?case by simp
next
  case (Cons s ss)
  then have ih: "search py q acc' ss =
      Inr (acc' @ map entry (filter (\<lambda>s. lower py (get (keyword s) '''') = lower py q) ss))"
    for acc' by simp
  show ?case
  proof (cases "lower py q = lower py (get (keyword s) '''')")
    case False
    with ih show ?thesis by auto
  next
    case True
    with Cons.prems have "keyword s \<noteq> None" by simp
    then have "format_shortcut_result s = Inr (entry s)" by (rule format_keyed)
    with True ih [of "acc @ [entry s]"] show ?thesis by simp
  qed
qed

lemma fst_append_to:
  "map fst (map (\<lambda>(k, v). if k = c then (k, v @ [s]) else (k, v)) cats) = map fst cats"
  by (induction cats) auto

lemma set_append_to:
  "(k, g) \<in> set (map (\<lambda>(k, v). if k = c then (k, v @ [s]) else (k, v)) cats)
     \<longleftrightarrow> (\<exists>v. (k, v) \<in> set cats \<and> g = (if k = c then v @ [s] else v))"
  by (induction cats) (auto split: if_splits)

lemma add_to_category_keys:
  "set (map fst (add_to_category cats s)) = insert (category_of s) (set (map fst cats))"
  unfolding add_to_category_def Let_def category_of_def [symmetric] fst_append_to
  by auto

lemma add_to_category_distinct:
  "distinct (map fst cats) \<Longrightarrow> distinct (map fst (add_to_category cats s))"
  unfolding add_to_category_def Let_def category_of_def [symmetric] fst_append_to
  by auto

lemma add_to_category_member:
  assumes "(k, g) \<in> set (add_to_category cats s)"
  shows "(\<exists>v. (k, v) \<in> set cats \<and> g = (if k = category_of s then v @ [s] else v))
         \<or> (k = category_of s \<and> k \<notin> fst ` set cats \<and> g = [s])"
  using assms
  unfolding add_to_category_def Let_def category_of_def [symmetric] set_append_to
  by (auto split: if_splits)

lemma add_to_category_inv:
  assumes "grouped_inv cats seen"
  shows "grouped_inv (add_to_category cats s) (seen @ [s])"
proof -
  from assms have d: "distinct (map fst cats)"
    and k: "fst ` set cats = category_of ` set seen"
    and g: "\<And>c v. (c, v) \<in> set cats \<Longrightarrow> v = filter (\<lambda>s. category_of s = c) seen"
    by (auto simp: grouped_inv_def)
  have 1: "distinct (map fst (add_to_category cats s))"
    using d by (rule add_to_category_distinct)
  have 2: "fst ` set (add_to_category cats s) = category_of ` set (seen @ [s])"
    using add_to_category_keys [of cats s] k by auto
  have 3: "g' = filter (\<lambda>x. category_of x = c) (seen @ [s])"
    if m: "(c, g') \<in> set (add_to_category cats s)" for c g'
  proof -
    from add_to_category_member [OF m] show ?thesis
    proof (elim disjE exE conjE)
      fix v assume "(c, v) \<in> set cats" "g' = (if c = category_of s then v @ [s] else v)"
      with g [of c v] show ?thesis by auto
    next
      assume a: "c = category_of s" "c \<notin> fst ` set cats" "g' = [s]"
      with k have "\<forall>x\<in>set seen. category_of x \<noteq> c" by (metis imageI)
      then have "filter (\<lambda>x. category_of x = c) seen = []" by (simp add: filter_empty_conv)
      with a show ?thesis by simp
    qed
  qed
  from 1 2 3 show ?thesis unfolding grouped_inv_def by blast
qed

lemma foldl_add_to_category_inv:
  "grouped_inv cats seen \<Longrightarrow> grouped_inv (foldl add_to_category cats rest) (seen @ rest)"
proof (induction rest arbitrary: cats seen)
  case Nil
  then show ?case by simp
next
  case (Cons s rest)
  from Cons.IH [OF add_to_category_inv [OF Cons.prems, of s]] show ?case by simp
qed

lemma group_by_category_inv: "grouped_inv (group_by_category reg) reg"
  using foldl_add_to_category_inv [of "[]" "[]" reg]
  by (simp add: group_by_category_def grouped_inv_def)

lemma sorted_reverse_stable:
  "filter (\<lambda>y. f y = k) (sorted_reverse f xs) = filter (\<lambda>y. f y = k) xs"
  by (simp add: sorted_reverse_def rev_filter [symmetric] sort_key_stable)

lemma sorted_reverse_set: "set (sorted_reverse f xs) = set xs"
  by (simp add: sorted_reverse_def)

lemma sorted_reverse_length: "length (sorted_reverse f xs) = length xs"
  by (simp add: sorted_reverse_def)

lemma sorted_reverse_filter:
  "filter P (sorted_reverse f xs) = sorted_reverse f (filter P xs)"
  by (simp add: sorted_reverse_def rev_filter [symmetric] filter_sort)

lemma sorted_reverse_descending:
  "sorted_wrt (\<lambda>x y. f y \<le> f x) (sorted_reverse f xs)"
proof -
  have "sorted (map f (sort_key f (rev xs)))" by simp
  then have "sorted_wrt (\<lambda>x y. f x \<le> f y) (sort_key f (rev xs))"
    by (simp add: sorted_map)
  then show ?thesis
    by (simp add: sorted_reverse_def sorted_wrt_rev)
qed

lemma append_formatted_keyed:
  "keyed ss \<Longrightarrow> append_formatted acc ss = Inr (acc @ map entry ss)"
  by (induction ss arbitrary: acc) (auto simp: keyed_def format_keyed)

lemma append_categories_keyed:
  "\<forall>(c, g)\<in>set cats. keyed g \<Longrightarrow>
   append_categories acc cats =
     Inr (acc @ concat (map (\<lambda>(c, g). header c g # map entry (sorted_reverse priority_of g)) cats))"
proof (induction cats arbitrary: acc)
  case Nil
  then show ?case by simp
next
  case (Cons p cats)
  obtain c g where p: "p = (c, g)" by (cases p)
  with Cons.prems have "keyed g" by simp
  then have "keyed (sorted_reverse priority_of g)"
    by (simp add: keyed_def list_all_iff sorted_reverse_set)
  with Cons p show ?case
    by (simp add: append_formatted_keyed)
qed


lemma header_sorted_reverse: "header c (sorted_reverse f g) = header c g"
  by (simp add: header_def sorted_reverse_length)

lemma fst_listByCategory:
  "map fst (listByCategory reg) = map fst (sort_key fst (group_by_category reg))"
  by (simp add: listByCategory_def comp_def case_prod_unfold)

lemma listByCategory_member:
  assumes "(c, ms) \<in> set (listByCategory reg)"
  shows "ms = sorted_reverse priority_of (filter (\<lambda>s. category_of s = c) reg)"
proof -
  from assms obtain g where "(c, g) \<in> set (group_by_category reg)"
    and ms: "ms = sorted_reverse priority_of g"
    by (auto simp: listByCategory_def)
  with group_by_category_inv [of reg] have "g = filter (\<lambda>s. category_of s = c) reg"
    by (auto simp: grouped_inv_def)
  with ms show ?thesis by simp
qed

lemma listByCategory_ascending: "sorted_wrt (<) (map fst (listByCategory reg))"
proof -
  let ?G = "group_by_category reg"
  from group_by_category_inv [of reg] have "distinct (map fst ?G)"
    by (simp add: grouped_inv_def)
  then have "distinct ?G" "inj_on fst (set ?G)" by (simp_all add: distinct_map)
  then have "distinct (map fst (sort_key fst ?G))" by (simp add: distinct_map)
  moreover have "sorted (map fst (sort_key fst ?G))" by simp
  ultimately show ?thesis by (simp add: strict_sorted_iff fst_listByCategory)
qed

lemma listByCategory_keys: "set (map fst (listByCategory reg)) = category_of ` set reg"
  using group_by_category_inv [of reg]
  by (simp add: fst_listByCategory grouped_inv_def)

lemma show_shortcut_list_keyed:
  assumes "keyed reg"
  shows "show_shortcut_list reg =
           Inr (concat (map (\<lambda>(c, ms). header c ms # map entry ms) (listByCategory reg)))"
proof -
  let ?G = "sort_key fst (group_by_category reg)"
  have "keyed g" if "(c, g) \<in> set ?G" for c g
  proof -
    from that group_by_category_inv [of reg] have "g = filter (\<lambda>s. category_of s = c) reg"
      by (auto simp: grouped_inv_def)
    with assms show ?thesis by (simp add: keyed_def list_all_iff)
  qed
  then have "\<forall>(c, g)\<in>set ?G. keyed g" by blast
  then have "show_shortcut_list reg =
      Inr (concat (map (\<lambda>(c, g). header c g # map entry (sorted_reverse priority_of g)) ?G))"
    by (simp add: show_shortcut_list_def append_categories_keyed)
  also have "map (\<lambda>(c, g). header c g # map entry (sorted_reverse priority_of g)) ?G =
      map (\<lambda>(c, ms). header c ms # map entry ms) (listByCategory reg)"
    by (simp add: listByCategory_def comp_def case_prod_unfold header_sorted_reverse)
  finally show ?thesis .
qed

subsection \<open>Lookup\<close>

lemma resolve_keyed_find:
  "keyed reg \<Longrightarrow> resolve reg k = Inr (find (\<lambda>s. keyword s = Some k) reg)"
  by (induction reg) (auto simp: keyed_def getitem_def)

lemma resolve_first:
  assumes "keyed pre" "\<forall>t\<in>set pre. keyword t \<noteq> Some k" "keyword s = Some k"
  shows "resolve (pre @ s # post) k = Inr (Some s)"
  using assms by (induction pre) (auto simp: keyed_def getitem_def)

lemma resolve_absent:
  assumes "keyed reg" "\<forall>t\<in>set reg. keyword t \<noteq> Some k"
  shows "resolve reg k = Inr None"
  using assms by (induction reg) (auto simp: keyed_def getitem_def)

text \<open>
  Claim C1. On a registry whose records all carry the required keyword, the lookup
  compares the given keyword with each record's keyword by equality of strings
  (so case matters), in sequence order: when some record has the keyword, the
  result is the first such record, whatever follows it (duplicates included);
  when no record has it, and in particular on the empty registry, the result is
  the absent value \<open>None\<close>, returned normally and not raised.
\<close>

theorem resolve_first_match:
  "keyed reg \<Longrightarrow>
     (\<forall>pre s post. reg = pre @ s # post \<and> keyword s = Some k
          \<and> (\<forall>t\<in>set pre. keyword t \<noteq> Some k)
        \<longrightarrow> resolve reg k = Inr (Some s))
   \<and> ((\<exists>s\<in>set reg. keyword s = Some k) \<longrightarrow>
        (\<exists>s. resolve reg k = Inr (Some s) \<and> keyword s = Some k \<and> s \<in> set reg))
   \<and> ((\<forall>s\<in>set reg. keyword s \<noteq> Some k) \<longrightarrow> resolve reg k = Inr None)
   \<and> resolve [] k = Inr None"
proof (intro conjI allI impI)
  fix pre s post
  assume k: "keyed reg"
    and h: "reg = pre @ s # post \<and> keyword s = Some k \<and> (\<forall>t\<in>set pre. keyword t \<noteq> Some k)"
  from k h have "keyed pre" by (simp add: keyed_def)
  with h show "resolve reg k = Inr (Some s)" by (simp add: resolve_first)
next
  assume k: "keyed reg" and ex: "\<exists>s\<in>set reg. keyword s = Some k"
  from ex obtain pre s post where
    "reg = pre @ s # post" "keyword s = Some k" "\<forall>t\<in>set pre. keyword t \<noteq> Some k"
    by (auto simp: split_list_first_prop_iff)
  moreover from this k have "keyed pre" by (simp add: keyed_def)
  ultimately have "resolve reg k = Inr (Some s) \<and> keyword s = Some k \<and> s \<in> set reg"
    by (simp add: resolve_first)
  then show "\<exists>s. resolve reg k = Inr (Some s) \<and> keyword s = Some k \<and> s \<in> set reg" ..
next
  assume "keyed reg" "\<forall>s\<in>set reg. keyword s \<noteq> Some k"
  then show "resolve reg k = Inr None" by (rule resolve_absent)
next
  show "resolve [] k = Inr None" by simp
qed

theorem resolve_first_match_witness:
  "keyed [sc_b, sc_a, sc_a2]
   \<and> resolve [sc_b, sc_a, sc_a2] ''a'' = Inr (Some sc_a)
   \<and> sc_a \<noteq> sc_a2
   \<and> resolve [sc_b, sc_a, sc_a2] ''A'' = Inr None"
proof -
  have k: "keyed [sc_b, sc_a, sc_a2]"
    by (simp add: keyed_def sc_a_def sc_b_def sc_a2_def blank_def)
  have kw: "keyword sc_a = Some ''a''" "keyword sc_b = Some ''b''" "keyword sc_a2 = Some ''a''"
    by (simp_all add: sc_a_def sc_b_def sc_a2_def blank_def)
  note t = resolve_first_match [OF k]
  have 1: "resolve [sc_b, sc_a, sc_a2] ''a'' = Inr (Some sc_a)"
    using t [of "''a''"] kw by (auto dest: spec [of _ "[sc_b]"])
  have 2: "resolve [sc_b, sc_a, sc_a2] ''A'' = Inr None"
    using t [of "''A''"] kw by simp
  have 3: "sc_a \<noteq> sc_a2" by (simp add: sc_a_def sc_a2_def blank_def)
  from k 1 2 3 show ?thesis by simp
qed

subsection \<open>Listing by category\<close>

text \<open>
  Claim C4. On a registry whose records all carry a keyword, the listing is the
  concatenation, over the groups of \<open>listByCategory\<close>, of the group's header and
  the entries of its members. The group names are strictly ascending in the
  lexicographic order of strings and are the categories of the records, the
  category of a record without the field being \<open>Uncategorized\<close>. The members
  of a group are the records of that category, in non-increasing order of
  priority; the members of any one priority stand in the order they have in the
  registry. For the registry of the three records a (category X, priority 1),
  b (category X, priority 5) and c (category Y, priority 0), the groups are
  X with b, a and then Y with c.
\<close>

theorem listing_by_category:
  "keyed reg \<Longrightarrow>
     show_shortcut_list reg =
       Inr (concat (map (\<lambda>(c, ms). header c ms # map entry ms) (listByCategory reg)))
   \<and> sorted_wrt (<) (map fst (listByCategory reg))
   \<and> set (map fst (listByCategory reg)) = (\<lambda>s. get (category s) ''Uncategorized'') ` set reg
   \<and> (\<forall>(c, ms)\<in>set (listByCategory reg).
         set ms = {s \<in> set reg. get (category s) ''Uncategorized'' = c}
       \<and> sorted_wrt (\<lambda>x y. priority_of x \<ge> priority_of y) ms
       \<and> (\<forall>p. filter (\<lambda>s. priority_of s = p) ms
               = filter (\<lambda>s. get (category s) ''Uncategorized'' = c \<and> priority_of s = p) reg))
   \<and> listByCategory [sc_a, sc_b, sc_c] = [(''X'', [sc_b, sc_a]), (''Y'', [sc_c])]"
proof (intro conjI)
  assume "keyed reg"
  then show "show_shortcut_list reg =
       Inr (concat (map (\<lambda>(c, ms). header c ms # map entry ms) (listByCategory reg)))"
    by (rule show_shortcut_list_keyed)
next
  show "sorted_wrt (<) (map fst (listByCategory reg))" by (rule listByCategory_ascending)
next
  show "set (map fst (listByCategory reg)) = (\<lambda>s. get (category s) ''Uncategorized'') ` set reg"
    using listByCategory_keys [of reg] by (simp add: category_of_def [abs_def])
next
  show "\<forall>(c, ms)\<in>set (listByCategory reg).
         set ms = {s \<in> set reg. get (category s) ''Uncategorized'' = c}
       \<and> sorted_wrt (\<lambda>x y. priority_of x \<ge> priority_of y) ms
       \<and> (\<forall>p. filter (\<lambda>s. priority_of s = p) ms
               = filter (\<lambda>s. get (category s) ''Uncategorized'' = c \<and> priority_of s = p) reg)"
  proof (intro ballI, clarify, intro conjI allI)
    fix c ms assume "(c, ms) \<in> set (listByCategory reg)"
    then have ms: "ms = sorted_reverse priority_of (filter (\<lambda>s. category_of s = c) reg)"
      by (rule listByCategory_member)
    show "set ms = {s \<in> set reg. get (category s) ''Uncategorized'' = c}"
      by (auto simp: ms sorted_reverse_set category_of_def)
    show "sorted_wrt (\<lambda>x y. priority_of x \<ge> priority_of y) ms"
      unfolding ms by (rule sorted_reverse_descending)
    show "filter (\<lambda>s. priority_of s = p) ms
               = filter (\<lambda>s. get (category s) ''Uncategorized'' = c \<and> priority_of s = p) reg" for p
      by (simp add: ms sorted_reverse_stable category_of_def)
  qed
next
  show "listByCategory [sc_a, sc_b, sc_c] = [(''X'', [sc_b, sc_a]), (''Y'', [sc_c])]"
    by code_simp
qed

theorem listing_by_category_witness:
  "keyed [sc_a, sc_b, sc_c, sc_d, sc_e]
   \<and> listByCategory [sc_a, sc_b, sc_c, sc_d, sc_e]
       = [(''Uncategorized'', [sc_e]), (''X'', [sc_b, sc_a, sc_d]), (''Y'', [sc_c])]
   \<and> show_shortcut_list [sc_a, sc_b, sc_c, sc_d, sc_e]
       = Inr [header ''Uncategorized'' [sc_e], entry sc_e,
              header ''X'' [sc_b, sc_a, sc_d], entry sc_b, entry sc_a, entry sc_d,
              header ''Y'' [sc_c], entry sc_c]"
proof -
  have k: "keyed [sc_a, sc_b, sc_c, sc_d, sc_e]" by code_simp
  have l: "listByCategory [sc_a, sc_b, sc_c, sc_d, sc_e]
       = [(''Uncategorized'', [sc_e]), (''X'', [sc_b, sc_a, sc_d]), (''Y'', [sc_c])]"
    by code_simp
  from listing_by_category [OF k] have "show_shortcut_list [sc_a, sc_b, sc_c, sc_d, sc_e] =
      Inr (concat (map (\<lambda>(c, ms). header c ms # map entry ms)
        (listByCategory [sc_a, sc_b, sc_c, sc_d, sc_e])))"
    by blast
  with k l show ?thesis by simp
qed

subsection \<open>Query\<close>

lemma keyword_match_iff:
  assumes "keyed reg \<or> lower py q \<noteq> lower py []" and "s \<in> set reg"
  shows "lower py (get (keyword s) '''') = lower py q
     \<longleftrightarrow> (case keyword s of None \<Rightarrow> False | Some k \<Rightarrow> lower py k = lower py q)"
  using assms by (cases "keyword s") (auto simp: get_def keyed_def list_all_iff)

text \<open>
  Claim C7, as amended. Whatever \<^verbatim>\<open>str.lower\<close> and \<^verbatim>\<open>str.strip\<close> compute, the
  query returns a sequence of display results in three ways. A text whose
  lowercase is \<open>list\<close> gives the listing by category, which on a registry
  whose records all carry a keyword is the sequence of the headers and entries of
  the groups. Any other text that \<^verbatim>\<open>strip\<close> does not empty, that is, a text with
  a character that is not whitespace, gives in registry order the entry of every
  record whose lowercased keyword is the lowercased text (on a registry whose
  records all carry a keyword, or when the lowercased text is not the lowercase
  of the empty text). Any other text that \<^verbatim>\<open>strip\<close> empties, that is, the
  empty text or a text of whitespace only, gives the single help entry; so does
  the empty text, which both methods leave empty.
\<close>

theorem query_dispatch:
  "(lower py q = ''list'' \<longrightarrow>
      query py reg q = show_shortcut_list reg
      \<and> (keyed reg \<longrightarrow>
           query py reg q =
             Inr (concat (map (\<lambda>(c, ms). header c ms # map entry ms) (listByCategory reg)))))
   \<and> (lower py q \<noteq> ''list'' \<and> strip py q \<noteq> [] \<and> (keyed reg \<or> lower py q \<noteq> lower py [])
        \<longrightarrow> query py reg q =
              Inr (map entry
                     (filter (\<lambda>s. lower py (get (keyword s) '''') = lower py q) reg)))
   \<and> (lower py q \<noteq> ''list'' \<and> strip py q = [] \<longrightarrow> query py reg q = Inr [help_entry])
   \<and> (lower py [] = [] \<and> strip py [] = [] \<longrightarrow> query py reg [] = Inr [help_entry])"
proof (intro conjI impI)
  assume "lower py q = ''list''"
  then show "query py reg q = show_shortcut_list reg" by (simp add: query_def)
next
  assume "lower py q = ''list''" "keyed reg"
  then show "query py reg q =
      Inr (concat (map (\<lambda>(c, ms). header c ms # map entry ms) (listByCategory reg)))"
    by (simp add: query_def show_shortcut_list_keyed)
next
  assume a: "lower py q \<noteq> ''list'' \<and> strip py q \<noteq> []
      \<and> (keyed reg \<or> lower py q \<noteq> lower py [])"
  then have "\<forall>s\<in>set reg. lower py q = lower py (get (keyword s) '''') \<longrightarrow> keyword s \<noteq> None"
    by (intro matches_keyed) simp
  then have "search py q [] reg =
      Inr ([] @ map entry (filter (\<lambda>s. lower py (get (keyword s) '''') = lower py q) reg))"
    by (rule search_acc)
  with a show "query py reg q =
      Inr (map entry (filter (\<lambda>s. lower py (get (keyword s) '''') = lower py q) reg))"
    by (simp add: query_def)
next
  assume "lower py q \<noteq> ''list'' \<and> strip py q = []"
  then show "query py reg q = Inr [help_entry]" by (simp add: query_def)
next
  assume "lower py [] = [] \<and> strip py [] = []"
  then show "query py reg [] = Inr [help_entry]" by (simp add: query_def)
qed

theorem query_dispatch_witness:
  "lower ascii_str ''LiSt'' = ''list'' \<and> keyed [sc_a, sc_b, sc_c]
   \<and> query ascii_str [sc_a, sc_b, sc_c] ''LiSt''
       = Inr [header ''X'' [sc_b, sc_a], entry sc_b, entry sc_a, header ''Y'' [sc_c], entry sc_c]
   \<and> lower ascii_str ''B'' \<noteq> ''list'' \<and> strip ascii_str ''B'' \<noteq> []
   \<and> query ascii_str [sc_a, sc_b, sc_c] ''B'' = Inr [entry sc_b]
   \<and> lower ascii_str ''  '' \<noteq> ''list'' \<and> strip ascii_str ''  '' = []
   \<and> query ascii_str [sc_a, sc_b, sc_c] ''  '' = Inr [help_entry]
   \<and> lower ascii_str [] = [] \<and> strip ascii_str [] = []
   \<and> query ascii_str [sc_a, sc_b, sc_c] [] = Inr [help_entry]"
proof -
  let ?reg = "[sc_a, sc_b, sc_c]"
  have k: "keyed ?reg" by code_simp
  have 1: "lower ascii_str ''LiSt'' = ''list''" by code_simp
  have 2: "lower ascii_str ''B'' \<noteq> ''list''" "strip ascii_str ''B'' \<noteq> []" by code_simp+
  have 3: "lower ascii_str ''  '' \<noteq> ''list''" "strip ascii_str ''  '' = []" by code_simp+
  have 4: "lower ascii_str [] = []" "strip ascii_str [] = []" by code_simp+
  have l: "listByCategory ?reg = [(''X'', [sc_b, sc_a]), (''Y'', [sc_c])]" by code_simp
  have f: "filter (\<lambda>s. lower ascii_str (get (keyword s) '''') = lower ascii_str ''B'') ?reg
      = [sc_b]"
    by code_simp
  from query_dispatch [of ascii_str "''LiSt''" ?reg] 1 k
  have "query ascii_str ?reg ''LiSt''
      = Inr (concat (map (\<lambda>(c, ms). header c ms # map entry ms) (listByCategory ?reg)))"
    by blast
  with l have a: "query ascii_str ?reg ''LiSt''
      = Inr [header ''X'' [sc_b, sc_a], entry sc_b, entry sc_a, header ''Y'' [sc_c], entry sc_c]"
    by simp
  from query_dispatch [of ascii_str "''B''" ?reg] 2 k f
  have b: "query ascii_str ?reg ''B'' = Inr [entry sc_b]" by simp
  from query_dispatch [of ascii_str "''  ''" ?reg] 3
  have c: "query ascii_str ?reg ''  '' = Inr [help_entry]" by blast
  from query_dispatch [of ascii_str "[]" ?reg] 4
  have d: "query ascii_str ?reg [] = Inr [help_entry]" by blast
  from k 1 2 3 4 a b c d show ?thesis by blast
qed

text \<open>
  The claim as given sends every text that is not empty and not \<open>list\<close> to the
  search by keyword. The text of one space is not empty, and the loop of lines 57
  to 59 would find the record with that keyword; yet the guard of line 56 strips
  the text and the help entry is returned.
\<close>

theorem query_dispatch_counterexample:
  "'' '' \<noteq> [] \<and> lower ascii_str '' '' \<noteq> ''list''
   \<and> keyword sc_space1 = Some '' ''
   \<and> search ascii_str '' '' [] [sc_space1] = Inr [entry sc_space1]
   \<and> query ascii_str [sc_space1] '' '' = Inr [help_entry]
   \<and> query ascii_str [sc_space1] '' '' \<noteq> Inr [entry sc_space1]"
  by code_simp

text \<open>
  Claim C10, as amended. Whatever \<^verbatim>\<open>str.lower\<close> and \<^verbatim>\<open>str.strip\<close> compute:
  when the lowercase of the text is not \<open>list\<close>, \<^verbatim>\<open>strip\<close> does not empty the
  text (it has a character that is not whitespace) and the records all carry a
  keyword (or the lowercased text is not the lowercase of the empty text), the
  query returns one formatted entry for each record whose keyword equals the text
  after lowercasing both, in registry order; every such record is formatted
  without an error. Several records with the same keyword all appear.
\<close>

theorem query_every_match:
  assumes "lower py q \<noteq> ''list''" and "strip py q \<noteq> []"
    and "keyed reg \<or> lower py q \<noteq> lower py []"
  shows "query py reg q =
           Inr (map entry (filter (\<lambda>s. case keyword s of None \<Rightarrow> False
                                        | Some k \<Rightarrow> lower py k = lower py q) reg))
   \<and> (\<forall>s\<in>set reg. (case keyword s of None \<Rightarrow> False | Some k \<Rightarrow> lower py k = lower py q)
          \<longrightarrow> format_shortcut_result s = Inr (entry s))"
proof
  from assms(3)
  have "\<forall>s\<in>set reg. lower py q = lower py (get (keyword s) '''') \<longrightarrow> keyword s \<noteq> None"
    by (rule matches_keyed)
  then have "search py q [] reg =
      Inr ([] @ map entry (filter (\<lambda>s. lower py (get (keyword s) '''') = lower py q) reg))"
    by (rule search_acc)
  moreover have "filter (\<lambda>s. lower py (get (keyword s) '''') = lower py q) reg
      = filter (\<lambda>s. case keyword s of None \<Rightarrow> False | Some k \<Rightarrow> lower py k = lower py q) reg"
    by (rule filter_cong) (simp_all add: keyword_match_iff [OF assms(3)])
  ultimately show "query py reg q =
      Inr (map entry (filter (\<lambda>s. case keyword s of None \<Rightarrow> False
                                   | Some k \<Rightarrow> lower py k = lower py q) reg))"
    using assms(1,2) by (simp add: query_def)
  show "\<forall>s\<in>set reg. (case keyword s of None \<Rightarrow> False | Some k \<Rightarrow> lower py k = lower py q)
          \<longrightarrow> format_shortcut_result s = Inr (entry s)"
    by (auto simp: format_keyed split: option.splits)
qed

theorem query_every_match_witness:
  "lower ascii_str ''A'' \<noteq> ''list'' \<and> strip ascii_str ''A'' \<noteq> []
   \<and> lower ascii_str ''A'' \<noteq> lower ascii_str []
   \<and> query ascii_str [sc_a, sc_b, sc_a2, sc_keyless, sc_upper] ''A''
       = Inr [entry sc_a, entry sc_a2, entry sc_upper]
   \<and> format_shortcut_result sc_a2 = Inr (entry sc_a2)
   \<and> keyed [sc_a, sc_b, sc_a2]
   \<and> query ascii_str [sc_a, sc_b, sc_a2] ''a'' = Inr [entry sc_a, entry sc_a2]"
proof -
  let ?reg = "[sc_a, sc_b, sc_a2, sc_keyless, sc_upper]"
  have 1: "lower ascii_str ''A'' \<noteq> ''list''" "lower ascii_str ''a'' \<noteq> ''list''" by code_simp+
  have 2: "strip ascii_str ''A'' \<noteq> []" "strip ascii_str ''a'' \<noteq> []" by code_simp+
  have 3: "lower ascii_str ''A'' \<noteq> lower ascii_str []" by code_simp
  have k: "keyed [sc_a, sc_b, sc_a2]" by code_simp
  have f: "filter (\<lambda>s. case keyword s of None \<Rightarrow> False
                       | Some k \<Rightarrow> lower ascii_str k = lower ascii_str ''A'') ?reg
             = [sc_a, sc_a2, sc_upper]"
    by code_simp
  have g: "filter (\<lambda>s. case keyword s of None \<Rightarrow> False
                       | Some k \<Rightarrow> lower ascii_str k = lower ascii_str ''a'') [sc_a, sc_b, sc_a2]
             = [sc_a, sc_a2]"
    by code_simp
  have m: "case keyword sc_a2 of None \<Rightarrow> False
           | Some k \<Rightarrow> lower ascii_str k = lower ascii_str ''A''"
    by code_simp
  from query_every_match [OF 1(1) 2(1) disjI2 [OF 3], of ?reg] f m
  have a: "query ascii_str ?reg ''A'' = Inr [entry sc_a, entry sc_a2, entry sc_upper]"
    and b: "format_shortcut_result sc_a2 = Inr (entry sc_a2)"
    by simp_all
  from query_every_match [OF 1(2) 2(2) disjI1 [OF k]] g
  have c: "query ascii_str [sc_a, sc_b, sc_a2] ''a'' = Inr [entry sc_a, entry sc_a2]" by simp
  from 1 2 3 k a b c show ?thesis by blast
qed

text \<open>
  For the text of one space, which is not empty, two records with that keyword
  give the help entry and not their two entries.
\<close>

theorem query_every_match_counterexample:
  "'' '' \<noteq> [] \<and> lower ascii_str '' '' \<noteq> ''list''
   \<and> keyword sc_space1 = Some '' '' \<and> keyword sc_space2 = Some '' ''
   \<and> sc_space1 \<noteq> sc_space2
   \<and> search ascii_str '' '' [] [sc_space1, sc_space2] = Inr [entry sc_space1, entry sc_space2]
   \<and> query ascii_str [sc_space1, sc_space2] '' '' = Inr [help_entry]
   \<and> query ascii_str [sc_space1, sc_space2] '' '' \<noteq> Inr [entry sc_space1, entry sc_space2]"
  by code_simp

subsection \<open>Execution\<close>

lemma launched_os_do:
  assumes "resolve (shortcuts st) k = Inr (Some s)"
    and "try_execute env s st = os_do env c (st\<lparr>effects := effects st @ [Expandvars raw]\<rparr>)"
  shows "launched env st k = [c]"
  using assms
  by (cases "os_call_result env c")
     (simp_all add: launched_def execute_shortcut_def os_do_def logger_error_def)

text \<open>
  Claim C2. Let the lookup find the record \<open>s\<close> and let the expansion of its
  path give \<open>p\<close>. Then the execution makes exactly one call to the operating
  system, chosen by the type: for \<open>url\<close> the default handler opens \<open>p\<close> (and no
  process is started); for \<open>folder\<close> the file manager is started on \<open>p\<close>; for
  \<open>file\<close> the program \<open>openWith\<close>, when present and not empty, is started
  with the argument \<open>p\<close>, and otherwise the default handler opens \<open>p\<close>; for
  \<open>app\<close> the path \<open>p\<close> itself is started.
\<close>

theorem execute_dispatch:
  assumes "resolve (shortcuts st) k = Inr (Some s)"
    and "expandvars env (get (path s) '''') = Inr p"
  shows "(type s = Some ''url'' \<longrightarrow> launched env st k = [Startfile p])
   \<and> (type s = Some ''folder'' \<longrightarrow>
      launched env st k = [Popen_cmd (''explorer '' @ [CHR 0x22] @ p @ [CHR 0x22])])
   \<and> (type s = Some ''file'' \<longrightarrow>
      (\<forall>ow. openWith s = Some ow \<and> ow \<noteq> [] \<longrightarrow> launched env st k = [Popen_args [ow, p]])
      \<and> (openWith s = None \<or> openWith s = Some [] \<longrightarrow> launched env st k = [Startfile p]))
   \<and> (type s = Some ''app'' \<longrightarrow> launched env st k = [Popen_cmd p])"
proof -
  let ?st1 = "st\<lparr>effects := effects st @ [Expandvars (get (path s) '''')]\<rparr>"
  have url: "launched env st k = [Startfile p]" if "type s = Some ''url''"
  proof -
    from that assms(2) have "try_execute env s st = os_do env (Startfile p) ?st1"
      by (simp add: try_execute_def get_def)
    with assms(1) show ?thesis by (rule launched_os_do)
  qed
  have folder: "launched env st k = [Popen_cmd (''explorer '' @ [CHR 0x22] @ p @ [CHR 0x22])]"
    if "type s = Some ''folder''"
  proof -
    from that assms(2) have "try_execute env s st =
        os_do env (Popen_cmd (''explorer '' @ [CHR 0x22] @ p @ [CHR 0x22])) ?st1"
      by (simp add: try_execute_def get_def)
    with assms(1) show ?thesis by (rule launched_os_do)
  qed
  have file_with: "launched env st k = [Popen_args [ow, p]]"
    if "type s = Some ''file''" "openWith s = Some ow \<and> ow \<noteq> []" for ow
  proof -
    from that assms(2) have "try_execute env s st = os_do env (Popen_args [ow, p]) ?st1"
      by (simp add: try_execute_def get_def)
    with assms(1) show ?thesis by (rule launched_os_do)
  qed
  have file_default: "launched env st k = [Startfile p]"
    if "type s = Some ''file''" "openWith s = None \<or> openWith s = Some []"
  proof -
    from that assms(2) have "try_execute env s st = os_do env (Startfile p) ?st1"
      by (auto simp: try_execute_def get_def)
    with assms(1) show ?thesis by (rule launched_os_do)
  qed
  have app: "launched env st k = [Popen_cmd p]" if "type s = Some ''app''"
  proof -
    from that assms(2) have "try_execute env s st = os_do env (Popen_cmd p) ?st1"
      by (simp add: try_execute_def get_def)
    with assms(1) show ?thesis by (rule launched_os_do)
  qed
  from url folder file_with file_default app show ?thesis by blast
qed

theorem execute_dispatch_witness:
  "resolve (shortcuts (fresh launchers Absent)) ''web'' = Inr (Some sc_url)
   \<and> launched env_ok (fresh launchers Absent) ''web'' = [Startfile ''https://example.org'']
   \<and> resolve (shortcuts (fresh launchers Absent)) ''docs'' = Inr (Some sc_folder)
   \<and> launched env_denied (fresh launchers Absent) ''docs''
       = [Popen_cmd (''explorer '' @ [CHR 0x22] @ ''C:/docs'' @ [CHR 0x22])]
   \<and> resolve (shortcuts (fresh launchers Absent)) ''notes'' = Inr (Some sc_file)
   \<and> launched env_ok (fresh launchers Absent) ''notes'' = [Startfile ''C:/n.txt'']
   \<and> resolve (shortcuts (fresh launchers Absent)) ''todo'' = Inr (Some sc_file_with)
   \<and> launched env_ok (fresh launchers Absent) ''todo''
       = [Popen_args [''notepad.exe'', ''C:/t.txt'']]
   \<and> resolve (shortcuts (fresh launchers Absent)) ''calc'' = Inr (Some sc_app)
   \<and> launched env_ok (fresh launchers Absent) ''calc'' = [Popen_cmd ''calc.exe'']"
proof -
  let ?st = "fresh launchers Absent"
  have r1: "resolve (shortcuts ?st) ''web'' = Inr (Some sc_url)" by code_simp
  have r2: "resolve (shortcuts ?st) ''docs'' = Inr (Some sc_folder)" by code_simp
  have r3: "resolve (shortcuts ?st) ''notes'' = Inr (Some sc_file)" by code_simp
  have r4: "resolve (shortcuts ?st) ''todo'' = Inr (Some sc_file_with)" by code_simp
  have r5: "resolve (shortcuts ?st) ''calc'' = Inr (Some sc_app)" by code_simp
  have x1: "expandvars env_ok (get (path sc_url) '''') = Inr ''https://example.org''"
    by (simp add: env_ok_def sc_url_def blank_def get_def)
  have x2: "expandvars env_denied (get (path sc_folder) '''') = Inr ''C:/docs''"
    by (simp add: env_denied_def sc_folder_def blank_def get_def)
  have x3: "expandvars env_ok (get (path sc_file) '''') = Inr ''C:/n.txt''"
    by (simp add: env_ok_def sc_file_def blank_def get_def)
  have x4: "expandvars env_ok (get (path sc_file_with) '''') = Inr ''C:/t.txt''"
    by (simp add: env_ok_def sc_file_with_def blank_def get_def)
  have x5: "expandvars env_ok (get (path sc_app) '''') = Inr ''calc.exe''"
    by (simp add: env_ok_def sc_app_def blank_def get_def)
  have t: "type sc_url = Some ''url''" "type sc_folder = Some ''folder''"
    "type sc_file = Some ''file''" "type sc_file_with = Some ''file''"
    "type sc_app = Some ''app''" "openWith sc_file = Some []"
    "openWith sc_file_with = Some ''notepad.exe''"
    by (simp_all add: sc_url_def sc_folder_def sc_file_def sc_file_with_def sc_app_def blank_def)
  from execute_dispatch [OF r1 x1] t
  have 1: "launched env_ok ?st ''web'' = [Startfile ''https://example.org'']" by blast
  from execute_dispatch [OF r2 x2] t
  have 2: "launched env_denied ?st ''docs''
      = [Popen_cmd (''explorer '' @ [CHR 0x22] @ ''C:/docs'' @ [CHR 0x22])]" by blast
  from execute_dispatch [OF r3 x3] t
  have 3: "launched env_ok ?st ''notes'' = [Startfile ''C:/n.txt'']" by blast
  from execute_dispatch [OF r4 x4] t
  have 4: "launched env_ok ?st ''todo'' = [Popen_args [''notepad.exe'', ''C:/t.txt'']]"
    by simp
  from execute_dispatch [OF r5 x5] t
  have 5: "launched env_ok ?st ''calc'' = [Popen_cmd ''calc.exe'']" by blast
  from r1 r2 r3 r4 r5 1 2 3 4 5 show ?thesis by blast
qed

text \<open>
  Claim C9. On a registry whose records all carry a keyword, none of them the
  given one (the empty registry is such a registry), the execution returns
  \<open>False\<close> and leaves the state as it was: no expansion, no write, no call to
  the operating system and no log entry is added.
\<close>

theorem execute_missing:
  "(keyed (shortcuts st) \<and> (\<forall>s\<in>set (shortcuts st). keyword s \<noteq> Some k) \<longrightarrow>
      execute_shortcut env st k = Inr (False, st) \<and> launched env st k = [])
   \<and> (shortcuts st = [] \<longrightarrow>
      execute_shortcut env st k = Inr (False, st) \<and> launched env st k = [])"
  by (simp add: execute_shortcut_def launched_def resolve_absent)

theorem execute_missing_witness:
  "keyed (shortcuts (fresh [] Absent))
   \<and> execute_shortcut env_ok (fresh [] Absent) ''missing'' = Inr (False, fresh [] Absent)
   \<and> keyed (shortcuts (fresh launchers Absent))
   \<and> list_all (\<lambda>s. keyword s \<noteq> Some ''missing'') (shortcuts (fresh launchers Absent))
   \<and> execute_shortcut env_ok (fresh launchers Absent) ''missing''
       = Inr (False, fresh launchers Absent)
   \<and> launched env_ok (fresh launchers Absent) ''missing'' = []"
proof -
  have k0: "keyed (shortcuts (fresh [] Absent))" by code_simp
  have n0: "\<forall>s\<in>set (shortcuts (fresh [] Absent)). keyword s \<noteq> Some ''missing''"
    by (simp add: fresh_def)
  have k1: "keyed (shortcuts (fresh launchers Absent))" by code_simp
  have l1: "list_all (\<lambda>s. keyword s \<noteq> Some ''missing'') (shortcuts (fresh launchers Absent))"
    by (simp add: fresh_def launchers_def sc_url_def sc_folder_def sc_file_def
        sc_file_with_def sc_app_def blank_def)
  then have n1: "\<forall>s\<in>set (shortcuts (fresh launchers Absent)). keyword s \<noteq> Some ''missing''"
    by (simp add: list_all_iff)
  from execute_missing [of "fresh [] Absent" "''missing''" env_ok]
    execute_missing [of "fresh launchers Absent" "''missing''" env_ok] k0 n0 k1 n1 l1
  show ?thesis by blast
qed

subsection \<open>Deletion\<close>

lemma shortcuts_without_keyed:
  "keyed reg \<Longrightarrow> shortcuts_without reg k = Inr (filter (\<lambda>s. keyword s \<noteq> Some k) reg)"
  by (induction reg) (auto simp: keyed_def getitem_def)

lemma save_shortcuts_keeps:
  "\<exists>st'. save_shortcuts env st = Inr st' \<and> shortcuts st' = shortcuts st"
  by (cases "write_result env") (simp_all add: save_shortcuts_def Let_def logger_error_def)

text \<open>
  Claim C3. On a registry whose records all carry a keyword, deletion returns
  with the registry reduced to the records whose keyword differs from the given
  one, in their original order: no record with the given keyword remains, the
  records with another keyword are the same sequence as before, and a lookup of
  the given keyword in the new registry finds nothing.
\<close>

theorem delete_removes_all:
  assumes "keyed (shortcuts st)"
  shows "\<exists>st'. delete_shortcut env st k = Inr st'
           \<and> shortcuts st' = filter (\<lambda>s. keyword s \<noteq> Some k) (shortcuts st)
           \<and> (\<forall>s\<in>set (shortcuts st'). keyword s \<noteq> Some k)
           \<and> filter (\<lambda>s. keyword s \<noteq> Some k) (shortcuts st')
               = filter (\<lambda>s. keyword s \<noteq> Some k) (shortcuts st)
           \<and> resolve (shortcuts st') k = Inr None"
proof -
  let ?rest = "filter (\<lambda>s. keyword s \<noteq> Some k) (shortcuts st)"
  from assms have "delete_shortcut env st k = save_shortcuts env (st\<lparr>shortcuts := ?rest\<rparr>)"
    by (simp add: delete_shortcut_def shortcuts_without_keyed)
  moreover from save_shortcuts_keeps [of env "st\<lparr>shortcuts := ?rest\<rparr>"]
  obtain st' where "save_shortcuts env (st\<lparr>shortcuts := ?rest\<rparr>) = Inr st'"
    and "shortcuts st' = ?rest" by auto
  moreover from assms have "keyed ?rest" by (simp add: keyed_def list_all_iff)
  then have "resolve ?rest k = Inr None" by (rule resolve_absent) simp
  ultimately show ?thesis by auto
qed

theorem delete_removes_all_witness:
  "keyed (shortcuts (fresh [sc_a, sc_b, sc_a2, sc_c] Absent))
   \<and> delete_shortcut env_ok (fresh [sc_a, sc_b, sc_a2, sc_c] Absent) ''a''
       = Inr \<lparr>shortcuts = [sc_b, sc_c],
              shortcuts_file = Parsed (Dict (Some [sc_b, sc_c]) []),
              effects = [Open_write]\<rparr>
   \<and> resolve [sc_b, sc_c] ''a'' = Inr None"
proof -
  have k: "keyed (shortcuts (fresh [sc_a, sc_b, sc_a2, sc_c] Absent))" by code_simp
  have f: "filter (\<lambda>s. keyword s \<noteq> Some ''a'') (shortcuts (fresh [sc_a, sc_b, sc_a2, sc_c] Absent))
      = [sc_b, sc_c]"
    by code_simp
  have d: "delete_shortcut env_ok (fresh [sc_a, sc_b, sc_a2, sc_c] Absent) ''a''
       = Inr \<lparr>shortcuts = [sc_b, sc_c],
              shortcuts_file = Parsed (Dict (Some [sc_b, sc_c]) []),
              effects = [Open_write]\<rparr>"
    by code_simp
  from delete_removes_all [OF k, of env_ok "''a''"] f d
  have "resolve [sc_b, sc_c] ''a'' = Inr None" by auto
  with k d show ?thesis by blast
qed

subsection \<open>Loading and saving\<close>

text \<open>
  Claim C5. Loading always returns and never raises. When the file parses to a dict
  with the key \<open>shortcuts\<close>, the result is the sequence under that key. When the
  file is absent the result is empty; when it cannot be opened or does not parse,
  the error is logged and the result is empty; the same holds for a file that
  parses to a value that is not a dict, and a dict without the key gives the
  empty sequence.
\<close>

theorem load_never_raises:
  "(\<exists>reg st'. load_shortcuts st = Inr (reg, st'))
   \<and> (\<forall>reg others. shortcuts_file st = Parsed (Dict (Some reg) others) \<longrightarrow>
         load_shortcuts st = Inr (reg, st))
   \<and> (shortcuts_file st = Absent \<longrightarrow> load_shortcuts st = Inr ([], st))
   \<and> (\<forall>e. shortcuts_file st = Unreadable e \<or> shortcuts_file st = Malformed e \<longrightarrow>
         load_shortcuts st = Inr ([], logger_error ''Error loading shortcuts'' e st))
   \<and> (shortcuts_file st = Parsed Non_dict \<longrightarrow>
         load_shortcuts st
           = Inr ([], logger_error ''Error loading shortcuts'' (AttributeError ''get'') st))
   \<and> (\<forall>others. shortcuts_file st = Parsed (Dict None others) \<longrightarrow>
         load_shortcuts st = Inr ([], st))"
proof (intro conjI allI impI)
  show "\<exists>reg st'. load_shortcuts st = Inr (reg, st')"
    by (cases "read_shortcuts (shortcuts_file st)") (simp_all add: load_shortcuts_def)
qed (auto simp: load_shortcuts_def get_def)

theorem load_never_raises_witness:
  "shortcuts_file (fresh [] (Parsed (Dict (Some [sc_a, sc_b]) []))) = Parsed (Dict (Some [sc_a, sc_b]) [])
   \<and> load_shortcuts (fresh [] (Parsed (Dict (Some [sc_a, sc_b]) [])))
       = Inr ([sc_a, sc_b], fresh [] (Parsed (Dict (Some [sc_a, sc_b]) [])))
   \<and> shortcuts_file (fresh [] Absent) = Absent
   \<and> load_shortcuts (fresh [] Absent) = Inr ([], fresh [] Absent)
   \<and> shortcuts_file (fresh [] (Unreadable (OSError ''denied''))) = Unreadable (OSError ''denied'')
   \<and> fst (projr (load_shortcuts (fresh [] (Unreadable (OSError ''denied''))))) = []
   \<and> shortcuts_file (fresh [] (Malformed JSONDecodeError)) = Malformed JSONDecodeError
   \<and> load_shortcuts (fresh [] (Malformed JSONDecodeError))
       = Inr ([], \<lparr>shortcuts = [], shortcuts_file = Malformed JSONDecodeError,
                   effects = [Logged ''Error loading shortcuts'' JSONDecodeError]\<rparr>)
   \<and> shortcuts_file (fresh [] (Parsed Non_dict)) = Parsed Non_dict
   \<and> fst (projr (load_shortcuts (fresh [] (Parsed Non_dict)))) = []
   \<and> shortcuts_file (fresh [] (Parsed (Dict None [''items'']))) = Parsed (Dict None [''items''])
   \<and> load_shortcuts (fresh [] (Parsed (Dict None [''items''])))
       = Inr ([], fresh [] (Parsed (Dict None [''items''])))"
  using load_never_raises [of "fresh [] (Parsed (Dict (Some [sc_a, sc_b]) []))"]
    load_never_raises [of "fresh [] Absent"]
    load_never_raises [of "fresh [] (Unreadable (OSError ''denied''))"]
    load_never_raises [of "fresh [] (Malformed JSONDecodeError)"]
    load_never_raises [of "fresh [] (Parsed Non_dict)"]
    load_never_raises [of "fresh [] (Parsed (Dict None [''items'']))"]
  by (simp add: fresh_def logger_error_def)

text \<open>
  Claim C8. For a file that holds a dict with the single key \<open>shortcuts\<close>,
  loading and then saving, when the write does not break off on the way, leaves
  a file that parses to the same document: the same records in the same order
  under \<open>shortcuts\<close>, which a further load returns.
\<close>

theorem load_save_round_trip:
  assumes "shortcuts_file st = Parsed (Dict (Some reg) [])"
    and "\<forall>e. write_result env \<noteq> Dump_failed e"
  shows "\<exists>st'. load_then_save env st = Inr st'
           \<and> shortcuts_file st' = shortcuts_file st
           \<and> shortcuts st' = reg
           \<and> read_shortcuts (shortcuts_file st') = Inr reg"
  using assms
  by (cases "write_result env")
     (simp_all add: load_then_save_def init_def load_shortcuts_def save_shortcuts_def
        Let_def logger_error_def get_def)

theorem load_save_round_trip_witness:
  "shortcuts_file (fresh [] (Parsed (Dict (Some [sc_a, sc_b]) []))) = Parsed (Dict (Some [sc_a, sc_b]) [])
   \<and> (\<forall>e. write_result env_ok \<noteq> Dump_failed e)
   \<and> load_then_save env_ok (fresh [] (Parsed (Dict (Some [sc_a, sc_b]) [])))
       = Inr \<lparr>shortcuts = [sc_a, sc_b],
              shortcuts_file = Parsed (Dict (Some [sc_a, sc_b]) []),
              effects = [Open_write]\<rparr>
   \<and> (\<forall>e. write_result env_denied \<noteq> Dump_failed e)
   \<and> shortcuts_file (projr (load_then_save env_denied (fresh [] (Parsed (Dict (Some [sc_a, sc_b]) [])))))
       = Parsed (Dict (Some [sc_a, sc_b]) [])"
proof -
  let ?st = "fresh [] (Parsed (Dict (Some [sc_a, sc_b]) []))"
  have f: "shortcuts_file ?st = Parsed (Dict (Some [sc_a, sc_b]) [])" by (simp add: fresh_def)
  have w1: "\<forall>e. write_result env_ok \<noteq> Dump_failed e" by (simp add: env_ok_def)
  have w2: "\<forall>e. write_result env_denied \<noteq> Dump_failed e" by (simp add: env_denied_def)
  have s: "load_then_save env_ok ?st
       = Inr \<lparr>shortcuts = [sc_a, sc_b],
              shortcuts_file = Parsed (Dict (Some [sc_a, sc_b]) []),
              effects = [Open_write]\<rparr>"
    by (simp add: load_then_save_def init_def load_shortcuts_def save_shortcuts_def fresh_def
        env_ok_def get_def)
  from load_save_round_trip [OF f w1] load_save_round_trip [OF f w2] f w1 w2 s
  show ?thesis by auto
qed

subsection \<open>Errors that leave a method\<close>

text \<open>
  On a registry whose records all carry a keyword, every operation returns.
\<close>

lemma keyed_operations_return:
  assumes "keyed (shortcuts st)"
  shows "(\<exists>rs. query py (shortcuts st) q = Inr rs)
   \<and> (\<exists>rs. show_shortcut_list (shortcuts st) = Inr rs)
   \<and> (\<exists>ok st'. execute_shortcut env st k = Inr (ok, st'))
   \<and> (\<exists>st'. delete_shortcut env st k = Inr st')
   \<and> (\<exists>st'. save_shortcuts env st = Inr st')
   \<and> (\<exists>st'. init st = Inr st')"
proof (intro conjI)
  from assms show l: "\<exists>rs. show_shortcut_list (shortcuts st) = Inr rs"
    by (simp add: show_shortcut_list_keyed)
  from assms
  have "\<forall>s\<in>set (shortcuts st).
      lower py q = lower py (get (keyword s) '''') \<longrightarrow> keyword s \<noteq> None"
    by (intro matches_keyed) simp
  then have "\<exists>rs. search py q [] (shortcuts st) = Inr rs" by (simp add: search_acc)
  with l show "\<exists>rs. query py (shortcuts st) q = Inr rs" by (simp add: query_def)
  show "\<exists>ok st'. execute_shortcut env st k = Inr (ok, st')"
    using assms
    by (auto simp: execute_shortcut_def resolve_keyed_find split: option.splits prod.splits)
  show "\<exists>st'. delete_shortcut env st k = Inr st'"
    using assms save_shortcuts_keeps [of env "st\<lparr>shortcuts := filter (\<lambda>s. keyword s \<noteq> Some k) (shortcuts st)\<rparr>"]
    by (auto simp: delete_shortcut_def shortcuts_without_keyed)
  show "\<exists>st'. save_shortcuts env st = Inr st'"
    using save_shortcuts_keeps by blast
  show "\<exists>st'. init st = Inr st'"
    by (cases "read_shortcuts (shortcuts_file st)") (simp_all add: init_def load_shortcuts_def)
qed

text \<open>
  Inside \<^verbatim>\<open>execute_shortcut\<close>, a failure of the expansion or of the call to
  the operating system is caught: it is logged and the method returns \<open>False\<close>.
\<close>

lemma execute_failure_returns_False:
  assumes "resolve (shortcuts st) k = Inr (Some s)"
    and "try_execute env s st = (Some e, st')"
  shows "execute_shortcut env st k =
           Inr (False, logger_error ''Error executing shortcut'' e st')"
  using assms by (simp add: execute_shortcut_def)

lemma try_execute_expansion_fails:
  "expandvars env (get (path s) '''') = Inl e \<Longrightarrow> \<exists>st'. try_execute env s st = (Some e, st')"
  by (simp add: try_execute_def)

lemma try_execute_call_fails:
  assumes "expandvars env (get (path s) '''') = Inr p" and "\<forall>c. os_call_result env c = Some e"
    and "get (type s) ''file'' \<in> {''url'', ''folder'', ''file'', ''app''}"
  shows "\<exists>st'. try_execute env s st = (Some e, st')"
  using assms
  by (auto simp: try_execute_def os_do_def Let_def split: option.splits)

text \<open>
  Claim C6 fails on the code. A file whose single record has no \<open>keyword\<close> loads
  without complaint; on the registry so loaded, the execution, the deletion and
  the copy of the path for any keyword, and the query \<open>list\<close> with the
  listing it calls, raise \<open>KeyError\<close>, whatever the surroundings do: the
  lookup of line 112 stands before the \<^verbatim>\<open>try\<close>, and lines 78, 80, 190 and
  197 subscript the record outside any handler, while the query loop of line 58
  reads the same key with a default. On
  a registry whose record has its keyword, \<^verbatim>\<open>copy_path\<close> lets the failure of
  the import of \<^verbatim>\<open>pyperclip\<close> (or of the copy) leave the method: it has no
  handler, while \<^verbatim>\<open>copy_to_clipboard\<close> of the basic template wraps the same
  two statements in one.
\<close>

theorem unhandled_faults:
  "init (fresh [] (Parsed (Dict (Some [sc_keyless]) [])))
     = Inr (fresh [sc_keyless] (Parsed (Dict (Some [sc_keyless]) [])))
   \<and> execute_shortcut env (fresh [sc_keyless] f) k = Inl (KeyError ''keyword'')
   \<and> query ascii_str [sc_keyless] ''list'' = Inl (KeyError ''keyword'')
   \<and> show_shortcut_list [sc_keyless] = Inl (KeyError ''keyword'')
   \<and> delete_shortcut env (fresh [sc_keyless] f) k = Inl (KeyError ''keyword'')
   \<and> copy_path env (fresh [sc_keyless] f) k = Inl (KeyError ''keyword'')
   \<and> keyed [sc_app]
   \<and> copy_path env_denied (fresh [sc_app] f) ''calc'' = Inl (ImportError ''pyperclip'')"
proof (intro conjI)
  have kl: "keyword sc_keyless = None" by (simp add: sc_keyless_def blank_def)
  show "init (fresh [] (Parsed (Dict (Some [sc_keyless]) [])))
      = Inr (fresh [sc_keyless] (Parsed (Dict (Some [sc_keyless]) [])))"
    by (simp add: init_def load_shortcuts_def fresh_def get_def)
  show "execute_shortcut env (fresh [sc_keyless] f) k = Inl (KeyError ''keyword'')"
    by (simp add: execute_shortcut_def fresh_def getitem_def kl)
  show "delete_shortcut env (fresh [sc_keyless] f) k = Inl (KeyError ''keyword'')"
    by (simp add: delete_shortcut_def fresh_def getitem_def kl)
  show "copy_path env (fresh [sc_keyless] f) k = Inl (KeyError ''keyword'')"
    by (simp add: copy_path_def fresh_def getitem_def kl)
  show "query ascii_str [sc_keyless] ''list'' = Inl (KeyError ''keyword'')"
    by code_simp
  show "show_shortcut_list [sc_keyless] = Inl (KeyError ''keyword'')"
    by code_simp
  show "keyed [sc_app]" by (simp add: keyed_def sc_app_def blank_def)
  show "copy_path env_denied (fresh [sc_app] f) ''calc'' = Inl (ImportError ''pyperclip'')"
    by (simp add: copy_path_def fresh_def getitem_def sc_app_def blank_def env_denied_def
        get_def)
qed

end
